theory Spec2Isabelle
  imports Complex_Main
begin

section \<open>The popup interaction handler (PopupHandler.ts)\<close>

text \<open>
  The class \<open>PopupHandler\<close> has two methods. \<open>initiateAuthRequest\<close> opens the popup
  window; \<open>monitorPopupForHash\<close> returns a promise and, once the promise of
  \<open>PopupUtils.monitorPopupForSameOrigin\<close> is fulfilled, polls the popup window from a
  \<open>setInterval\<close> callback. The embedding makes the promise, the interval timer and the
  calls the methods make explicit: a session record is threaded through the callbacks,
  and the browser is a list of events delivered to the session one after the other.
\<close>

subsection \<open>Data\<close>

text \<open>The three factory functions of \<open>BrowserAuthError\<close> the class calls.\<close>

datatype BrowserAuthError =
  EmptyNavigationUriError | UserCancelledError | MonitorPopupTimeoutError

text \<open>
  What the handler reads of a \<open>Window\<close>: \<open>popupWindow.closed\<close>, which can always be
  read, and \<open>popupWindow.location.hash\<close>. The getter of \<open>location.hash\<close> throws when
  the window is on another origin, also after the promise of
  \<open>monitorPopupForSameOrigin\<close> is fulfilled; \<open>None\<close> is the read that throws.
\<close>

record window =
  closed_win :: bool
  location_hash :: "string option"

text \<open>A JavaScript promise: pending, or settled once and for all.\<close>

datatype 'a promise = Pending | Fulfilled 'a | Rejected BrowserAuthError

text \<open>The argument of \<open>cleanPopup\<close> is the popup window of the session or is left out.\<close>

datatype handle = PopupWindowRef

text \<open>The calls \<open>monitorPopupForHash\<close> and its callbacks make, in the order they make them.\<close>

datatype call =
    LoggerWarning
  | MonitorPopupForSameOrigin
  | SetInterval
  | ReadClosed
  | ReadLocationHash
  | CleanPopup "handle option"
  | WindowClose
  | ClearInterval
  | Resolve string
  | Reject BrowserAuthError

text \<open>
  The state of one call of \<open>monitorPopupForHash\<close>: the closure variables \<open>maxTicks\<close> and
  \<open>ticks\<close>, the promise of \<open>monitorPopupForSameOrigin\<close> (\<open>sameOrigin\<close>), whether the timer
  behind \<open>intervalId\<close> is registered and not yet cleared (\<open>interval_active\<close>), the
  promise handed to the caller (\<open>result\<close>), the popup window and the calls made so far.
  A JavaScript \<open>number\<close> is taken as a real; the only arithmetic on it is the one
  division and the one comparison below.
\<close>

record session =
  maxTicks :: real
  ticks :: nat
  sameOrigin :: "unit promise"
  interval_active :: bool
  result :: "string promise"
  popupWindow :: window
  calls :: "call list"

text \<open>
  The state \<open>initiateAuthRequest\<close> works on. A \<open>Window\<close> value is a reference, here a
  number; \<open>surfaces\<close> maps the reference of each surface that has been opened to the
  URL it was navigated to and the name it was opened under, and \<open>next_surface\<close> is the
  reference the next new surface gets. \<open>browserStorage\<close> is the temporary cache, and
  \<open>launch_calls\<close> the calls made, in the order they were made.
\<close>

type_synonym window_ref = nat

datatype launch_call =
    SetTemporaryCache string string bool
  | LoggerInfoPii string
  | LoggerError string
  | OpenPopup string string "window_ref option"

record handler_state =
  browserStorage :: "string \<Rightarrow> string option"
  surfaces :: "window_ref \<Rightarrow> (string \<times> string) option"
  next_surface :: window_ref
  launch_calls :: "launch_call list"

record PopupParams =
  popup :: "window_ref option"
  popupName :: string

text \<open>
  What the class imports and this file does not define: the constants of
  \<open>BrowserConstants\<close>, \<open>TemporaryCacheKeys\<close> and \<open>Configuration\<close> and the predicate
  \<open>UrlString.hashContainsKnownProperties\<close>. They are parameters of the model.
  \<open>POLL_INTERVAL_MS\<close> is a positive constant; the statements that depend on the value
  of \<open>timeout / POLL_INTERVAL_MS\<close> assume so.
\<close>

record externals =
  POLL_INTERVAL_MS :: real
  DEFAULT_POPUP_TIMEOUT_MS :: real
  INTERACTION_STATUS_KEY :: string
  INTERACTION_IN_PROGRESS_VALUE :: string
  hashContainsKnownProperties :: "string \<Rightarrow> bool"

subsection \<open>initiateAuthRequest\<close>

text \<open>
  Modelled from the spec: \<open>BrowserCacheManager.setTemporaryCache\<close> is not part of the
  file; the spec has it set the global interaction flag, so the cache is a map from key
  to value and the call stores the value under the key.
\<close>

definition setTemporaryCache :: "string \<Rightarrow> string \<Rightarrow> bool \<Rightarrow> handler_state \<Rightarrow> handler_state" where
  "setTemporaryCache k v generateKey st =
     st\<lparr>browserStorage := (browserStorage st)(k \<mapsto> v),
        launch_calls := launch_calls st @ [SetTemporaryCache k v generateKey]\<rparr>"

definition logger :: "launch_call \<Rightarrow> handler_state \<Rightarrow> handler_state" where
  "logger c st = st\<lparr>launch_calls := launch_calls st @ [c]\<rparr>"

text \<open>
  \<open>StringUtils.isEmpty\<close> of the package \<open>@azure/msal-common\<close> holds of \<open>undefined\<close>, of a
  falsy value and of a string of length 0. \<open>requestUrl\<close> is a string, and of a string it
  holds exactly when the string is the empty one: a string of spaces is not empty.
\<close>

definition isEmpty :: "string \<Rightarrow> bool" where
  "isEmpty str = (str = [])"

text \<open>
  Modelled from the spec: \<open>PopupUtils.openPopup\<close> is not part of the file. The spec's
  surface contract is \<open>open(url, name, existing?) -> handle\<close>: it reuses the existing
  surface if one is supplied and opens a surface otherwise, navigated to the URL under
  the name, and returns the handle.
\<close>

definition openPopup ::
  "string \<Rightarrow> string \<Rightarrow> window_ref option \<Rightarrow> handler_state \<Rightarrow> window_ref \<times> handler_state" where
  "openPopup urlNavigate name existing st =
     (let st1 = st\<lparr>launch_calls := launch_calls st @ [OpenPopup urlNavigate name existing]\<rparr> in
      case existing of
        Some w \<Rightarrow> (w, st1\<lparr>surfaces := (surfaces st1)(w \<mapsto> (urlNavigate, name))\<rparr>)
      | None \<Rightarrow>
          (next_surface st1,
           st1\<lparr>surfaces := (surfaces st1)(next_surface st1 \<mapsto> (urlNavigate, name)),
               next_surface := Suc (next_surface st1)\<rparr>))"

definition initiateAuthRequest ::
  "externals \<Rightarrow> string \<Rightarrow> PopupParams \<Rightarrow> handler_state
     \<Rightarrow> (BrowserAuthError + window_ref) \<times> handler_state" where
  "initiateAuthRequest e requestUrl params st =
     (if \<not> isEmpty requestUrl then
        let st1 = setTemporaryCache (INTERACTION_STATUS_KEY e)
                    (INTERACTION_IN_PROGRESS_VALUE e) True st;
            st2 = logger (LoggerInfoPii (''Navigate to:'' @ requestUrl)) st1;
            (opened, st3) = openPopup requestUrl (popupName params) (popup params) st2
        in (Inr opened, st3)
      else
        (Inl EmptyNavigationUriError, logger (LoggerError ''Navigate url is empty'') st))"

subsection \<open>monitorPopupForHash\<close>

definition log_call :: "call \<Rightarrow> session \<Rightarrow> session" where
  "log_call c s = s\<lparr>calls := calls s @ [c]\<rparr>"

text \<open>
  Modelled from the spec: \<open>PopupUtils.cleanPopup\<close> is not part of the file. The spec's
  Cleanup closes the surface if a handle is supplied and the surface is not already
  closed. Its other half, releasing the timer, is the \<open>clearInterval\<close> call of
  \<open>monitorPopupForHash\<close> itself: \<open>intervalId\<close> is a local of the promise executor.
\<close>

definition cleanPopup :: "handle option \<Rightarrow> session \<Rightarrow> session" where
  "cleanPopup h s =
     (let s1 = log_call (CleanPopup h) s in
      case h of
        None \<Rightarrow> s1
      | Some PopupWindowRef \<Rightarrow>
          if closed_win (popupWindow s1) then s1
          else log_call WindowClose (s1\<lparr>popupWindow := (popupWindow s1)\<lparr>closed_win := True\<rparr>\<rparr>))"

definition clearInterval :: "session \<Rightarrow> session" where
  "clearInterval s = log_call ClearInterval (s\<lparr>interval_active := False\<rparr>)"

text \<open>\<open>resolve\<close> and \<open>reject\<close> settle a pending promise and leave a settled one as it is.\<close>

definition resolve :: "string \<Rightarrow> session \<Rightarrow> session" where
  "resolve v s =
     log_call (Resolve v) (s\<lparr>result := (if result s = Pending then Fulfilled v else result s)\<rparr>)"

definition reject :: "BrowserAuthError \<Rightarrow> session \<Rightarrow> session" where
  "reject err s =
     log_call (Reject err) (s\<lparr>result := (if result s = Pending then Rejected err else result s)\<rparr>)"

text \<open>
  The promise executor, up to the call of \<open>monitorPopupForSameOrigin\<close>: the warning,
  \<open>maxTicks = timeout / POLL_INTERVAL_MS\<close> and \<open>ticks = 0\<close>.
\<close>

definition monitorPopupForHash :: "externals \<Rightarrow> window \<Rightarrow> real \<Rightarrow> session" where
  "monitorPopupForHash e w timeout =
     \<lparr>maxTicks = timeout / POLL_INTERVAL_MS e,
      ticks = 0,
      sameOrigin = Pending,
      interval_active = False,
      result = Pending,
      popupWindow = w,
      calls = (if timeout < DEFAULT_POPUP_TIMEOUT_MS e then [LoggerWarning] else [])
              @ [MonitorPopupForSameOrigin]\<rparr>"

text \<open>The callback given to \<open>then\<close>: it registers the interval timer.\<close>

definition then_callback :: "session \<Rightarrow> session" where
  "then_callback s = log_call SetInterval (s\<lparr>interval_active := True\<rparr>)"

text \<open>
  The callback given to \<open>setInterval\<close>. When the read of \<open>location.hash\<close> throws, the
  callback ends there: \<open>ticks\<close> has been incremented, neither the hash nor the budget
  is looked at, and the timer stays registered.
\<close>

definition interval_callback :: "externals \<Rightarrow> session \<Rightarrow> session" where
  "interval_callback e s =
     (let s1 = log_call ReadClosed s in
      if closed_win (popupWindow s1) then
        reject UserCancelledError (clearInterval (cleanPopup None s1))
      else
        let s2 = log_call ReadLocationHash (s1\<lparr>ticks := ticks s1 + 1\<rparr>) in
        case location_hash (popupWindow s2) of
          None \<Rightarrow> s2
        | Some contentHash \<Rightarrow>
            if hashContainsKnownProperties e contentHash then
              resolve contentHash (clearInterval (cleanPopup (Some PopupWindowRef) s2))
            else if maxTicks s2 < real (ticks s2) then
              reject MonitorPopupTimeoutError
                (clearInterval (cleanPopup (Some PopupWindowRef) s2))
            else s2)"

text \<open>
  What the browser does to a session: the promise of \<open>monitorPopupForSameOrigin\<close> is
  fulfilled or rejected (once; \<open>then\<close> was given no rejection handler), or one poll
  interval elapses with the popup window in some state, and the interval callback runs
  if the timer is registered.
\<close>

datatype event = SameOriginResolves | SameOriginRejects BrowserAuthError | IntervalElapses window

fun step :: "externals \<Rightarrow> session \<Rightarrow> event \<Rightarrow> session" where
  "step e s SameOriginResolves =
     (if sameOrigin s = Pending then then_callback (s\<lparr>sameOrigin := Fulfilled ()\<rparr>) else s)"
| "step e s (SameOriginRejects err) =
     (if sameOrigin s = Pending then s\<lparr>sameOrigin := Rejected err\<rparr> else s)"
| "step e s (IntervalElapses w) =
     (if interval_active s then interval_callback e (s\<lparr>popupWindow := w\<rparr>) else s)"

fun run :: "externals \<Rightarrow> session \<Rightarrow> event list \<Rightarrow> session" where
  "run e s [] = s"
| "run e s (ev # evs) = run e (step e s ev) evs"

subsection \<open>Notions used in the statements\<close>

text \<open>The calls that settle the promise handed to the caller.\<close>

fun is_settle :: "call \<Rightarrow> bool" where
  "is_settle (Resolve v) = True"
| "is_settle (Reject err) = True"
| "is_settle c = False"

fun settle_calls :: "string promise \<Rightarrow> call list" where
  "settle_calls Pending = []"
| "settle_calls (Fulfilled v) = [Resolve v]"
| "settle_calls (Rejected err) = [Reject err]"

text \<open>
  What holds of every session \<open>monitorPopupForHash\<close> starts, after any events: a
  registered timer means a pending result, nothing is settled before the same-origin
  promise is fulfilled, the settling calls made are the one the result shows, and that
  call came right after \<open>clearInterval\<close>.
\<close>

definition session_inv :: "session \<Rightarrow> bool" where
  "session_inv s =
     ((interval_active s \<longrightarrow> result s = Pending) \<and>
      (sameOrigin s \<noteq> Fulfilled () \<longrightarrow> result s = Pending \<and> \<not> interval_active s) \<and>
      filter is_settle (calls s) = settle_calls (result s) \<and>
      (result s \<noteq> Pending \<longrightarrow>
         is_settle (last (calls s)) \<and> last (butlast (calls s)) = ClearInterval))"

text \<open>
  A popup window that is open and shows no recognized hash: the read of its hash throws
  or yields a hash that is not a recognized one.
\<close>

definition quiet :: "externals \<Rightarrow> window \<Rightarrow> bool" where
  "quiet e w =
     (\<not> closed_win w \<and>
      (case location_hash w of None \<Rightarrow> True | Some h \<Rightarrow> \<not> hashContainsKnownProperties e h))"

text \<open>A popup window that is open and whose hash can be read and is not a recognized one.\<close>

definition unmarked :: "externals \<Rightarrow> window \<Rightarrow> bool" where
  "unmarked e w =
     (\<not> closed_win w \<and>
      (case location_hash w of None \<Rightarrow> False | Some h \<Rightarrow> \<not> hashContainsKnownProperties e h))"

text \<open>What \<open>n\<close> ticks on such windows leave in the list of calls.\<close>

definition poll_calls :: "nat \<Rightarrow> call list" where
  "poll_calls n = concat (replicate n [ReadClosed, ReadLocationHash])"

text \<open>The first tick count, counting from one, that exceeds \<open>m\<close>.\<close>

definition timeout_tick :: "real \<Rightarrow> nat" where
  "timeout_tick m = (if m < 0 then 1 else nat \<lfloor>m\<rfloor> + 1)"

text \<open>
  The tick budget as the specification words it, \<open>floor(timeoutMs / pollIntervalMs)\<close>,
  and the session that starts with that budget in place of the quotient.
\<close>

definition maxTicks_spec :: "externals \<Rightarrow> real \<Rightarrow> real" where
  "maxTicks_spec e timeout = real_of_int \<lfloor>timeout / POLL_INTERVAL_MS e\<rfloor>"

definition monitor_spec :: "externals \<Rightarrow> window \<Rightarrow> real \<Rightarrow> session" where
  "monitor_spec e w timeout =
     (monitorPopupForHash e w timeout)\<lparr>maxTicks := maxTicks_spec e timeout\<rparr>"

subsection \<open>An instance to evaluate the model on\<close>

text \<open>
  A poll interval of 2000 ms and one recognized hash; a handler that has opened no
  surface yet; a login page on another origin, and pages of the caller's origin.
\<close>

definition example_externals :: externals where
  "example_externals =
     \<lparr>POLL_INTERVAL_MS = 2000,
      DEFAULT_POPUP_TIMEOUT_MS = 60000,
      INTERACTION_STATUS_KEY = ''interaction.status'',
      INTERACTION_IN_PROGRESS_VALUE = ''interaction_in_progress'',
      hashContainsKnownProperties = (\<lambda>h. h = ''#code=abc'')\<rparr>"

definition example_handler :: handler_state where
  "example_handler =
     \<lparr>browserStorage = Map.empty, surfaces = Map.empty, next_surface = 0, launch_calls = []\<rparr>"

definition example_params :: PopupParams where
  "example_params = \<lparr>popup = None, popupName = ''msal''\<rparr>"

definition login_page :: window where
  "login_page = \<lparr>closed_win = False, location_hash = None\<rparr>"

definition blank_page :: window where
  "blank_page = \<lparr>closed_win = False, location_hash = Some []\<rparr>"

definition code_page :: window where
  "code_page = \<lparr>closed_win = False, location_hash = Some ''#code=abc''\<rparr>"

definition closed_code_page :: window where
  "closed_code_page = \<lparr>closed_win = True, location_hash = Some ''#code=abc''\<rparr>"

definition closed_page :: window where
  "closed_page = \<lparr>closed_win = True, location_hash = Some []\<rparr>"

section \<open>Properties\<close>

subsection \<open>Running a session\<close>

lemmas callback_defs = interval_callback_def then_callback_def cleanPopup_def
  clearInterval_def resolve_def reject_def log_call_def Let_def

lemmas example_defs = example_externals_def login_page_def blank_page_def code_page_def
  closed_code_page_def closed_page_def monitorPopupForHash_def callback_defs unmarked_def
  quiet_def

lemma run_append: "run e s (xs @ ys) = run e (run e s xs) ys"
  by (induction xs arbitrary: s) simp_all

lemma run_snoc: "run e s (evs @ [ev]) = step e (run e s evs) ev"
  by (simp add: run_append)

text \<open>A session with no timer and a settled same-origin promise does not move any more.\<close>

lemma step_idle: "\<not> interval_active s \<Longrightarrow> sameOrigin s \<noteq> Pending \<Longrightarrow> step e s ev = s"
  by (cases ev) simp_all

lemma run_idle: "\<not> interval_active s \<Longrightarrow> sameOrigin s \<noteq> Pending \<Longrightarrow> run e s evs = s"
  by (induction evs) (simp_all add: step_idle)

text \<open>Before the same-origin promise is fulfilled only that promise can change.\<close>

lemma step_before_same_origin:
  "\<not> interval_active s \<Longrightarrow> ev \<noteq> SameOriginResolves
     \<Longrightarrow> step e s ev = s\<lparr>sameOrigin := sameOrigin (step e s ev)\<rparr>"
  by (cases ev) simp_all

lemma run_before_same_origin:
  "\<not> interval_active s \<Longrightarrow> SameOriginResolves \<notin> set evs
     \<Longrightarrow> run e s evs = s\<lparr>sameOrigin := sameOrigin (run e s evs)\<rparr>"
proof (induction evs arbitrary: s)
  case Nil
  then show ?case by simp
next
  case (Cons ev evs)
  let ?t = "step e s ev"
  have t: "?t = s\<lparr>sameOrigin := sameOrigin ?t\<rparr>"
    using Cons.prems by (intro step_before_same_origin) auto
  then obtain g where "?t = s\<lparr>sameOrigin := g\<rparr>" by blast
  then have na: "\<not> interval_active ?t"
    using Cons.prems(1) by simp
  have "run e ?t evs = ?t\<lparr>sameOrigin := sameOrigin (run e ?t evs)\<rparr>"
    using Cons.IH[OF na] Cons.prems(2) by simp
  also have "\<dots> = s\<lparr>sameOrigin := sameOrigin (run e ?t evs)\<rparr>"
    by (subst t) simp
  finally show ?case by simp
qed

lemma run_before_same_origin_fields:
  assumes "\<not> interval_active s" "SameOriginResolves \<notin> set evs"
  shows "ticks (run e s evs) = ticks s \<and> result (run e s evs) = result s \<and>
         \<not> interval_active (run e s evs) \<and> calls (run e s evs) = calls s \<and>
         popupWindow (run e s evs) = popupWindow s"
proof -
  have "run e s evs = s\<lparr>sameOrigin := sameOrigin (run e s evs)\<rparr>"
    using assms by (rule run_before_same_origin)
  then obtain g where "run e s evs = s\<lparr>sameOrigin := g\<rparr>" by blast
  then show ?thesis using assms(1) by simp
qed

lemma step_waiting:
  "\<not> interval_active s \<Longrightarrow> ev \<noteq> SameOriginResolves \<Longrightarrow> (\<forall>err. ev \<noteq> SameOriginRejects err)
     \<Longrightarrow> step e s ev = s"
  by (cases ev) simp_all

lemma run_waiting:
  "\<not> interval_active s \<Longrightarrow> SameOriginResolves \<notin> set evs
     \<Longrightarrow> (\<forall>err. SameOriginRejects err \<notin> set evs) \<Longrightarrow> run e s evs = s"
proof (induction evs)
  case Nil
  then show ?case by simp
next
  case (Cons ev evs)
  then have "step e s ev = s" by (intro step_waiting) auto
  then show ?case using Cons by simp
qed

lemma init_fields:
  "ticks (monitorPopupForHash e w timeout) = 0"
  "result (monitorPopupForHash e w timeout) = Pending"
  "sameOrigin (monitorPopupForHash e w timeout) = Pending"
  "\<not> interval_active (monitorPopupForHash e w timeout)"
  "popupWindow (monitorPopupForHash e w timeout) = w"
  "maxTicks (monitorPopupForHash e w timeout) = timeout / POLL_INTERVAL_MS e"
  by (simp_all add: monitorPopupForHash_def)

lemma init_no_cleanup: "CleanPopup h \<notin> set (calls (monitorPopupForHash e w timeout))"
  by (simp add: monitorPopupForHash_def)


lemma same_origin_resolves_fields:
  "interval_active (step e (monitorPopupForHash e w0 timeout) SameOriginResolves)"
  "result (step e (monitorPopupForHash e w0 timeout) SameOriginResolves) = Pending"
  "sameOrigin (step e (monitorPopupForHash e w0 timeout) SameOriginResolves) \<noteq> Pending"
  "ticks (step e (monitorPopupForHash e w0 timeout) SameOriginResolves) = 0"
  "maxTicks (step e (monitorPopupForHash e w0 timeout) SameOriginResolves)
     = timeout / POLL_INTERVAL_MS e"
  "popupWindow (step e (monitorPopupForHash e w0 timeout) SameOriginResolves) = w0"
  "calls (step e (monitorPopupForHash e w0 timeout) SameOriginResolves) =
     calls (monitorPopupForHash e w0 timeout) @ [SetInterval]"
  by (simp_all add: monitorPopupForHash_def then_callback_def log_call_def)

subsection \<open>The invariant of a session\<close>

lemma inv_init: "session_inv (monitorPopupForHash e w timeout)"
  by (simp add: session_inv_def monitorPopupForHash_def)

lemma inv_callback:
  assumes "session_inv s" "interval_active s"
  shows "session_inv (interval_callback e (s\<lparr>popupWindow := w\<rparr>))"
  using assms
  by (auto simp: session_inv_def callback_defs butlast_append
      split: handle.splits option.splits)

lemma inv_step: "session_inv s \<Longrightarrow> session_inv (step e s ev)"
proof (cases ev)
  case SameOriginResolves
  assume "session_inv s"
  then show ?thesis using SameOriginResolves
    by (auto simp: session_inv_def then_callback_def log_call_def)
next
  case (SameOriginRejects err)
  assume "session_inv s"
  then show ?thesis using SameOriginRejects
    by (auto simp: session_inv_def)
next
  case (IntervalElapses w)
  assume "session_inv s"
  then show ?thesis using IntervalElapses
    by (simp add: inv_callback)
qed

lemma inv_run: "session_inv s \<Longrightarrow> session_inv (run e s evs)"
  by (induction evs arbitrary: s) (simp_all add: inv_step)

lemma inv_reachable: "session_inv (run e (monitorPopupForHash e w timeout) evs)"
  by (simp add: inv_run inv_init)

lemma live_pending:
  "interval_active (run e (monitorPopupForHash e w0 timeout) evs)
     \<Longrightarrow> result (run e (monitorPopupForHash e w0 timeout) evs) = Pending"
  using inv_reachable[of e w0 timeout evs] by (simp add: session_inv_def)

subsection \<open>One tick\<close>

lemma unmarked_quiet: "unmarked e w \<Longrightarrow> quiet e w"
  by (auto simp: unmarked_def quiet_def split: option.splits)

lemma quiet_step:
  assumes "interval_active s" "quiet e w" "real (Suc (ticks s)) \<le> maxTicks s"
  shows "step e s (IntervalElapses w) =
           s\<lparr>ticks := Suc (ticks s), popupWindow := w,
             calls := calls s @ [ReadClosed, ReadLocationHash]\<rparr>"
  using assms by (auto simp: quiet_def callback_defs split: option.splits)

text \<open>A tick on an open window whose hash cannot be read, whatever the budget.\<close>

lemma unreadable_step:
  assumes "interval_active s" "\<not> closed_win w" "location_hash w = None"
  shows "step e s (IntervalElapses w) =
           s\<lparr>ticks := Suc (ticks s), popupWindow := w,
             calls := calls s @ [ReadClosed, ReadLocationHash]\<rparr>"
  using assms by (auto simp: callback_defs)

lemma timeout_step:
  assumes "interval_active s" "result s = Pending" "unmarked e w"
    "maxTicks s < real (Suc (ticks s))"
  shows "step e s (IntervalElapses w) =
           s\<lparr>ticks := Suc (ticks s), popupWindow := w\<lparr>closed_win := True\<rparr>,
             interval_active := False, result := Rejected MonitorPopupTimeoutError,
             calls := calls s @ [ReadClosed, ReadLocationHash, CleanPopup (Some PopupWindowRef),
                                 WindowClose, ClearInterval, Reject MonitorPopupTimeoutError]\<rparr>"
  using assms by (auto simp: unmarked_def callback_defs split: option.splits)

lemma success_step:
  assumes "interval_active s" "result s = Pending" "\<not> closed_win w"
    "location_hash w = Some h" "hashContainsKnownProperties e h"
  shows "step e s (IntervalElapses w) =
           s\<lparr>ticks := Suc (ticks s), popupWindow := w\<lparr>closed_win := True\<rparr>,
             interval_active := False, result := Fulfilled h,
             calls := calls s @ [ReadClosed, ReadLocationHash, CleanPopup (Some PopupWindowRef),
                                 WindowClose, ClearInterval, Resolve h]\<rparr>"
  using assms by (auto simp: callback_defs)

lemma cancel_step:
  assumes "interval_active s" "result s = Pending" "closed_win w"
  shows "step e s (IntervalElapses w) =
           s\<lparr>popupWindow := w, interval_active := False,
             result := Rejected UserCancelledError,
             calls := calls s @ [ReadClosed, CleanPopup None, ClearInterval,
                                 Reject UserCancelledError]\<rparr>"
  using assms by (auto simp: callback_defs)

lemma live_step_calls:
  assumes "interval_active s"
  shows "\<exists>cs. calls (step e s (IntervalElapses w)) = calls s @ ReadClosed # cs"
  using assms by (auto simp: callback_defs split: option.splits)

subsection \<open>Ticks on open windows that show no recognized hash\<close>

lemma poll_calls_Suc: "poll_calls n @ [ReadClosed, ReadLocationHash] = poll_calls (Suc n)"
  unfolding poll_calls_def by (induction n) simp_all


lemma quiet_run:
  assumes "interval_active s" "\<forall>w\<in>set ws. quiet e w"
    "ws = [] \<or> real (ticks s + length ws) \<le> maxTicks s"
  shows "run e s (map IntervalElapses ws) =
           s\<lparr>ticks := ticks s + length ws, popupWindow := last (popupWindow s # ws),
             calls := calls s @ poll_calls (length ws)\<rparr>"
  using assms
proof (induction ws arbitrary: s)
  case Nil
  then show ?case by (simp add: poll_calls_def)
next
  case (Cons w ws)
  let ?t = "s\<lparr>ticks := Suc (ticks s), popupWindow := w,
              calls := calls s @ [ReadClosed, ReadLocationHash]\<rparr>"
  have b: "real (ticks s + length (w # ws)) \<le> maxTicks s"
    using Cons.prems(3) by simp
  then have "real (Suc (ticks s)) \<le> maxTicks s" by simp
  then have st: "step e s (IntervalElapses w) = ?t"
    using Cons.prems by (intro quiet_step) auto
  have "run e ?t (map IntervalElapses ws) =
          ?t\<lparr>ticks := ticks ?t + length ws, popupWindow := last (popupWindow ?t # ws),
             calls := calls ?t @ poll_calls (length ws)\<rparr>"
    using Cons.prems b by (intro Cons.IH) auto
  then show ?case
    using st poll_calls_Suc[of "length ws"]
    by (simp add: poll_calls_def)
qed

lemma timeout_tick_over: "m < real (timeout_tick m)"
proof (cases "m < 0")
  case True
  then show ?thesis by (simp add: timeout_tick_def)
next
  case False
  then have "0 \<le> \<lfloor>m\<rfloor>" by simp
  then have "real (nat \<lfloor>m\<rfloor> + 1) = real_of_int \<lfloor>m\<rfloor> + 1" by simp
  moreover have "m < real_of_int \<lfloor>m\<rfloor> + 1" by linarith
  ultimately have "m < real (nat \<lfloor>m\<rfloor> + 1)" by linarith
  then show ?thesis using False by (simp only: timeout_tick_def if_False)
qed

lemma timeout_tick_least: "timeout_tick m = 1 \<or> real (timeout_tick m - 1) \<le> m"
proof (cases "m < 0")
  case True
  then show ?thesis by (simp add: timeout_tick_def)
next
  case False
  then have "0 \<le> \<lfloor>m\<rfloor>" by simp
  then have "real (nat \<lfloor>m\<rfloor>) = real_of_int \<lfloor>m\<rfloor>" by simp
  moreover have "real_of_int \<lfloor>m\<rfloor> \<le> m" by linarith
  ultimately have "real (nat \<lfloor>m\<rfloor>) \<le> m" by linarith
  then show ?thesis using False by (simp add: timeout_tick_def)
qed

lemma timeout_tick_le:
  assumes "0 < n" "m < real n"
  shows "timeout_tick m \<le> n"
proof (cases "m < 0")
  case True
  then show ?thesis using assms(1) by (simp add: timeout_tick_def)
next
  case False
  have "\<lfloor>m\<rfloor> < int n" using assms(2) by (simp add: floor_less_iff)
  then have "nat \<lfloor>m\<rfloor> < n" using False by linarith
  then show ?thesis using False by (simp add: timeout_tick_def)
qed

lemma timeout_tick_pos: "0 < timeout_tick m"
  unfolding timeout_tick_def by simp

lemma timeout_run:
  assumes live: "interval_active s" "result s = Pending" "sameOrigin s \<noteq> Pending"
    and fresh: "ticks s = 0"
    and ws: "\<forall>w\<in>set ws. unmarked e w" "ws \<noteq> []"
    and over: "maxTicks s < real (length ws)"
  shows "run e s (map IntervalElapses ws) =
           s\<lparr>ticks := timeout_tick (maxTicks s),
             popupWindow := (ws ! (timeout_tick (maxTicks s) - 1))\<lparr>closed_win := True\<rparr>,
             interval_active := False, result := Rejected MonitorPopupTimeoutError,
             calls := calls s @ poll_calls (timeout_tick (maxTicks s))
                      @ [CleanPopup (Some PopupWindowRef), WindowClose, ClearInterval,
                         Reject MonitorPopupTimeoutError]\<rparr>"
proof -
  define n where "n = timeout_tick (maxTicks s)"
  define k where "k = n - 1"
  have npos: "0 < n" and nk: "n = Suc k"
    using timeout_tick_pos[of "maxTicks s"] by (simp_all add: n_def k_def)
  have nle: "n \<le> length ws"
    unfolding n_def using ws(2) over by (intro timeout_tick_le) auto
  then have klt: "k < length ws" using nk by simp
  have parts: "ws = take k ws @ ws ! k # drop (Suc k) ws"
    using klt by (rule id_take_nth_drop)
  let ?pre = "take k ws"
  have lpre: "length ?pre = k" using klt by simp
  have quiet_pre: "\<forall>w\<in>set ?pre. quiet e w"
    using ws(1) by (auto dest: in_set_takeD intro: unmarked_quiet)
  have budget: "?pre = [] \<or> real (ticks s + length ?pre) \<le> maxTicks s"
  proof (cases "k = 0")
    case True
    then show ?thesis by simp
  next
    case False
    then have "n \<noteq> 1" using nk by simp
    then have "real (n - 1) \<le> maxTicks s"
      using timeout_tick_least[of "maxTicks s"] by (simp add: n_def)
    then show ?thesis using lpre fresh by (simp add: k_def)
  qed
  define s1 where "s1 = run e s (map IntervalElapses ?pre)"
  have s1: "s1 = s\<lparr>ticks := k, popupWindow := last (popupWindow s # ?pre),
                   calls := calls s @ poll_calls k\<rparr>"
    unfolding s1_def using quiet_run[OF live(1) quiet_pre budget] lpre fresh by simp
  have over1: "maxTicks s1 < real (Suc (ticks s1))"
    using timeout_tick_over[of "maxTicks s"] s1 nk by (simp add: n_def)
  have um: "unmarked e (ws ! k)" using ws(1) klt by simp
  define s2 where "s2 = step e s1 (IntervalElapses (ws ! k))"
  have s2: "s2 = s\<lparr>ticks := n, popupWindow := (ws ! k)\<lparr>closed_win := True\<rparr>,
                   interval_active := False, result := Rejected MonitorPopupTimeoutError,
                   calls := calls s @ poll_calls n
                      @ [CleanPopup (Some PopupWindowRef), WindowClose, ClearInterval,
                         Reject MonitorPopupTimeoutError]\<rparr>"
  proof -
    have "s2 = s1\<lparr>ticks := Suc (ticks s1), popupWindow := (ws ! k)\<lparr>closed_win := True\<rparr>,
             interval_active := False, result := Rejected MonitorPopupTimeoutError,
             calls := calls s1 @ [ReadClosed, ReadLocationHash, CleanPopup (Some PopupWindowRef),
                                 WindowClose, ClearInterval, Reject MonitorPopupTimeoutError]\<rparr>"
      unfolding s2_def using live s1 um over1 by (intro timeout_step) simp_all
    then show ?thesis
      using poll_calls_Suc[of k] by (simp add: s1 nk)
  qed
  have idle: "run e s2 (map IntervalElapses (drop (Suc k) ws)) = s2"
    using live(3) by (intro run_idle) (simp_all add: s2)
  have "map IntervalElapses ws =
          map IntervalElapses (take k ws @ ws ! k # drop (Suc k) ws)"
    by (rule arg_cong[where f = "map IntervalElapses", OF parts])
  also have "\<dots> = map IntervalElapses ?pre @ IntervalElapses (ws ! k)
                   # map IntervalElapses (drop (Suc k) ws)"
    by simp
  finally have "run e s (map IntervalElapses ws) =
          run e s (map IntervalElapses ?pre @ IntervalElapses (ws ! k)
                   # map IntervalElapses (drop (Suc k) ws))"
    by (rule arg_cong)
  also have "\<dots> = run e s2 (map IntervalElapses (drop (Suc k) ws))"
    by (simp only: run_append run.simps s1_def s2_def)
  also have "\<dots> = s2" by (rule idle)
  finally have "run e s (map IntervalElapses ws) = s2" .
  then show ?thesis
    by (simp only: s2 n_def k_def)
qed

text \<open>The same, from the call of \<open>monitorPopupForHash\<close> on.\<close>

lemma polling_quiet:
  assumes "\<forall>w\<in>set ws. quiet e w"
    and "ws = [] \<or> real (length ws) \<le> timeout / POLL_INTERVAL_MS e"
  shows "run e (monitorPopupForHash e w0 timeout) (SameOriginResolves # map IntervalElapses ws) =
     (step e (monitorPopupForHash e w0 timeout) SameOriginResolves)
       \<lparr>ticks := length ws, popupWindow := last (w0 # ws),
        calls := calls (monitorPopupForHash e w0 timeout) @ SetInterval # poll_calls (length ws)\<rparr>"
proof -
  define a where "a = step e (monitorPopupForHash e w0 timeout) SameOriginResolves"
  have fa: "interval_active a" "ticks a = 0" "maxTicks a = timeout / POLL_INTERVAL_MS e"
    "popupWindow a = w0" "calls a = calls (monitorPopupForHash e w0 timeout) @ [SetInterval]"
    unfolding a_def by (rule same_origin_resolves_fields)+
  have "run e a (map IntervalElapses ws) =
           a\<lparr>ticks := ticks a + length ws, popupWindow := last (popupWindow a # ws),
             calls := calls a @ poll_calls (length ws)\<rparr>"
    using fa(1) assms(1) assms(2) by (intro quiet_run) (simp_all add: fa)
  then show ?thesis
    unfolding run.simps a_def[symmetric] by (simp add: fa)
qed

lemma polling_timeout:
  assumes "\<forall>w\<in>set ws. unmarked e w"
    and "ws \<noteq> []" "timeout / POLL_INTERVAL_MS e < real (length ws)"
  shows "run e (monitorPopupForHash e w0 timeout) (SameOriginResolves # map IntervalElapses ws) =
     (step e (monitorPopupForHash e w0 timeout) SameOriginResolves)
       \<lparr>ticks := timeout_tick (timeout / POLL_INTERVAL_MS e),
        popupWindow :=
          (ws ! (timeout_tick (timeout / POLL_INTERVAL_MS e) - 1))\<lparr>closed_win := True\<rparr>,
        interval_active := False, result := Rejected MonitorPopupTimeoutError,
        calls := calls (monitorPopupForHash e w0 timeout) @ SetInterval #
                 poll_calls (timeout_tick (timeout / POLL_INTERVAL_MS e))
                 @ [CleanPopup (Some PopupWindowRef), WindowClose, ClearInterval,
                    Reject MonitorPopupTimeoutError]\<rparr>"
proof -
  define a where "a = step e (monitorPopupForHash e w0 timeout) SameOriginResolves"
  have fa: "interval_active a" "result a = Pending" "sameOrigin a \<noteq> Pending" "ticks a = 0"
    "maxTicks a = timeout / POLL_INTERVAL_MS e"
    "popupWindow a = w0" "calls a = calls (monitorPopupForHash e w0 timeout) @ [SetInterval]"
    unfolding a_def by (rule same_origin_resolves_fields)+
  have "run e a (map IntervalElapses ws) =
           a\<lparr>ticks := timeout_tick (maxTicks a),
             popupWindow := (ws ! (timeout_tick (maxTicks a) - 1))\<lparr>closed_win := True\<rparr>,
             interval_active := False, result := Rejected MonitorPopupTimeoutError,
             calls := calls a @ poll_calls (timeout_tick (maxTicks a))
                      @ [CleanPopup (Some PopupWindowRef), WindowClose, ClearInterval,
                         Reject MonitorPopupTimeoutError]\<rparr>"
    using fa(1-4) assms by (intro timeout_run) (simp_all add: fa)
  then show ?thesis
    unfolding run.simps a_def[symmetric] by (simp add: fa)
qed

subsection \<open>The quotient and its floor\<close>

lemma floor_less_real: "(real_of_int \<lfloor>x\<rfloor> < real n) = (x < real n)"
proof -
  have "(real_of_int \<lfloor>x\<rfloor> < real n) = (\<lfloor>x\<rfloor> < int n)"
    by (metis of_int_less_iff of_int_of_nat_eq)
  also have "\<dots> = (x < real n)"
    by (simp add: floor_less_iff)
  finally show ?thesis .
qed

lemma floor_less_real_add1: "(real_of_int \<lfloor>x\<rfloor> < 1 + real n) = (x < 1 + real n)"
  using floor_less_real[of x "Suc n"] by simp

lemma callback_floor:
  "interval_callback e (s\<lparr>maxTicks := real_of_int \<lfloor>maxTicks s\<rfloor>\<rparr>) =
     (interval_callback e s)\<lparr>maxTicks := real_of_int \<lfloor>maxTicks s\<rfloor>\<rparr>"
  by (simp add: callback_defs floor_less_real_add1 split: handle.splits option.splits)

lemma step_floor:
  "step e (s\<lparr>maxTicks := real_of_int \<lfloor>maxTicks s\<rfloor>\<rparr>) ev =
     (step e s ev)\<lparr>maxTicks := real_of_int \<lfloor>maxTicks s\<rfloor>\<rparr>"
proof (cases ev)
  case SameOriginResolves
  then show ?thesis by (simp add: then_callback_def log_call_def)
next
  case (SameOriginRejects err)
  then show ?thesis by simp
next
  case (IntervalElapses w)
  have swap: "s\<lparr>maxTicks := real_of_int \<lfloor>maxTicks s\<rfloor>, popupWindow := w\<rparr> =
              s\<lparr>popupWindow := w,
                maxTicks := real_of_int \<lfloor>maxTicks (s\<lparr>popupWindow := w\<rparr>)\<rfloor>\<rparr>"
    by simp
  show ?thesis
    unfolding IntervalElapses step.simps swap
    using callback_floor[of e "s\<lparr>popupWindow := w\<rparr>"] by simp
qed

lemma maxTicks_callback: "maxTicks (interval_callback e s) = maxTicks s"
  by (simp add: callback_defs split: handle.splits option.splits)

lemma maxTicks_step: "maxTicks (step e s ev) = maxTicks s"
  by (cases ev) (simp_all add: maxTicks_callback then_callback_def log_call_def)

text \<open>
  Whatever value \<open>maxTicks\<close> holds, the session behaves as it does with the floor of
  that value: the counter it is compared with is a whole number.
\<close>

lemma run_floor:
  "run e (s\<lparr>maxTicks := real_of_int \<lfloor>maxTicks s\<rfloor>\<rparr>) evs =
     (run e s evs)\<lparr>maxTicks := real_of_int \<lfloor>maxTicks s\<rfloor>\<rparr>"
proof (induction evs arbitrary: s)
  case Nil
  then show ?case by simp
next
  case (Cons ev evs)
  have "run e (s\<lparr>maxTicks := real_of_int \<lfloor>maxTicks s\<rfloor>\<rparr>) (ev # evs) =
        run e ((step e s ev)\<lparr>maxTicks := real_of_int \<lfloor>maxTicks (step e s ev)\<rfloor>\<rparr>) evs"
    by (simp only: run.simps step_floor maxTicks_step)
  also have "\<dots> =
      (run e (step e s ev) evs)\<lparr>maxTicks := real_of_int \<lfloor>maxTicks (step e s ev)\<rfloor>\<rparr>"
    by (rule Cons.IH)
  finally show ?case by (simp only: run.simps maxTicks_step)
qed

subsection \<open>The timeout on a popup window whose hash can be read\<close>

text \<open>
  On a popup window that on every tick is open with a hash that can be read and is not
  a recognized one, the promise is pending as long as the number of ticks is at most
  \<open>maxTicks\<close> and is rejected with the timeout error on the first tick whose count
  exceeds it, after \<open>cleanPopup\<close> with the window and \<open>clearInterval\<close>. With a
  timeout of 6000 ms and a poll interval of 2000 ms that is the fourth tick.
\<close>

lemma timeout_on_readable_popup:
  assumes um: "\<forall>w\<in>set ws. unmarked e w"
    and pos: "0 < POLL_INTERVAL_MS e"
  shows "let s0 = monitorPopupForHash e w0 timeout;
             s = run e s0 (SameOriginResolves # map IntervalElapses ws);
             m = timeout / POLL_INTERVAL_MS e in
         (if ws \<noteq> [] \<and> m < real (length ws)
          then result s = Rejected MonitorPopupTimeoutError \<and>
               m < real (ticks s) \<and> (ticks s = 1 \<or> real (ticks s - 1) \<le> m) \<and>
               closed_win (popupWindow s) \<and> \<not> interval_active s \<and>
               calls s = calls s0 @ SetInterval # poll_calls (ticks s) @
                 [CleanPopup (Some PopupWindowRef), WindowClose, ClearInterval,
                  Reject MonitorPopupTimeoutError]
          else result s = Pending \<and> interval_active s \<and> ticks s = length ws) \<and>
         (POLL_INTERVAL_MS e = 2000 \<and> timeout = 6000 \<longrightarrow>
            (if 4 \<le> length ws
             then result s = Rejected MonitorPopupTimeoutError \<and> ticks s = 4
             else result s = Pending \<and> ticks s = length ws))"
proof -
  define m where "m = timeout / POLL_INTERVAL_MS e"
  define s where
    "s = run e (monitorPopupForHash e w0 timeout) (SameOriginResolves # map IntervalElapses ws)"
  have over: "result s = Rejected MonitorPopupTimeoutError \<and> ticks s = timeout_tick m \<and>
      closed_win (popupWindow s) \<and> \<not> interval_active s \<and>
      calls s = calls (monitorPopupForHash e w0 timeout) @ SetInterval # poll_calls (ticks s) @
                 [CleanPopup (Some PopupWindowRef), WindowClose, ClearInterval,
                  Reject MonitorPopupTimeoutError]"
    if "ws \<noteq> []" "m < real (length ws)"
    unfolding s_def m_def
    using polling_timeout[OF um that[unfolded m_def], where ?w0.0 = w0]
    by (simp add: same_origin_resolves_fields del: step.simps run.simps)
  have under: "result s = Pending \<and> interval_active s \<and> ticks s = length ws"
    if "ws = [] \<or> real (length ws) \<le> m"
  proof -
    have "\<forall>w\<in>set ws. quiet e w" using um by (auto intro: unmarked_quiet)
    then show ?thesis
      unfolding s_def
      using polling_quiet[OF _ that[unfolded m_def], where ?w0.0 = w0]
      by (simp add: same_origin_resolves_fields del: step.simps run.simps)
  qed
  have general: "if ws \<noteq> [] \<and> m < real (length ws)
          then result s = Rejected MonitorPopupTimeoutError \<and>
               m < real (ticks s) \<and> (ticks s = 1 \<or> real (ticks s - 1) \<le> m) \<and>
               closed_win (popupWindow s) \<and> \<not> interval_active s \<and>
               calls s = calls (monitorPopupForHash e w0 timeout) @ SetInterval #
                 poll_calls (ticks s) @
                 [CleanPopup (Some PopupWindowRef), WindowClose, ClearInterval,
                  Reject MonitorPopupTimeoutError]
          else result s = Pending \<and> interval_active s \<and> ticks s = length ws"
  proof (cases "ws \<noteq> [] \<and> m < real (length ws)")
    case True
    then show ?thesis
      using over timeout_tick_over[of m] timeout_tick_least[of m] by simp
  next
    case False
    then have "ws = [] \<or> real (length ws) \<le> m" by auto
    from under[OF this] False show ?thesis by (simp only: if_False)
  qed
  have scenario: "if 4 \<le> length ws
             then result s = Rejected MonitorPopupTimeoutError \<and> ticks s = 4
             else result s = Pending \<and> ticks s = length ws"
    if "POLL_INTERVAL_MS e = 2000 \<and> timeout = 6000"
  proof -
    have m3: "m = 3" using that by (simp add: m_def)
    then have t4: "timeout_tick m = 4" by (simp add: timeout_tick_def)
    show ?thesis
    proof (cases "4 \<le> length ws")
      case True
      then have "ws \<noteq> []" "m < real (length ws)" using m3 by auto
      from over[OF this] t4 True show ?thesis by simp
    next
      case False
      then have "ws = [] \<or> real (length ws) \<le> m" using m3 by auto
      from under[OF this] False show ?thesis by simp
    qed
  qed
  show ?thesis
    using general scenario by (simp only: Let_def flip: s_def m_def) blast
qed


lemma example_live:
  "interval_active (run example_externals (monitorPopupForHash example_externals login_page 6000)
                      [SameOriginResolves, IntervalElapses blank_page])"
  by (simp add: example_defs)

section \<open>The claims\<close>

text \<open>
  Claim C1. As long as the promise of \<open>monitorPopupForSameOrigin\<close> has not been
  fulfilled, whatever the timeout and however many poll intervals elapse, the session
  evaluates no tick: \<open>ticks\<close> is 0, no call beyond those of the executor has been made,
  no timer is registered and the result is pending, so it cannot be a timeout. When the
  promise is then fulfilled the timer starts with \<open>ticks\<close> at 0.
\<close>

theorem no_ticks_before_same_origin:
  assumes "SameOriginResolves \<notin> set evs"
  shows "let s0 = monitorPopupForHash e w timeout; s = run e s0 evs in
           ticks s = 0 \<and> result s = Pending \<and> \<not> interval_active s \<and>
           calls s = calls s0 \<and> popupWindow s = w \<and>
           ((\<forall>err. SameOriginRejects err \<notin> set evs) \<longrightarrow>
              (let s' = run e s0 (evs @ [SameOriginResolves]) in
                 ticks s' = 0 \<and> interval_active s' \<and> result s' = Pending \<and>
                 calls s' = calls s0 @ [SetInterval]))"
proof -
  let ?init = "monitorPopupForHash e w timeout"
  let ?s = "run e ?init evs"
  have a: "ticks ?s = 0 \<and> result ?s = Pending \<and> \<not> interval_active ?s \<and>
           calls ?s = calls ?init \<and> popupWindow ?s = w"
    using run_before_same_origin_fields[OF init_fields(4) assms, of e e w timeout]
    by (simp add: init_fields)
  have b: "ticks s' = 0 \<and> interval_active s' \<and> result s' = Pending \<and>
           calls s' = calls ?init @ [SetInterval]"
    if "\<forall>err. SameOriginRejects err \<notin> set evs"
      and "s' = run e ?init (evs @ [SameOriginResolves])" for s'
  proof -
    have "?s = ?init" using assms that(1) by (intro run_waiting) (simp_all add: init_fields)
    then have "s' = step e ?init SameOriginResolves" using that(2) by (simp add: run_append)
    then show ?thesis by (simp add: then_callback_def log_call_def init_fields)
  qed
  show ?thesis using a b[OF _ refl] by (simp add: Let_def)
qed

text \<open>
  Five poll intervals elapse on a login page with a timeout of 6000 ms and a poll
  interval of 2000 ms, a budget of three ticks: no tick has been counted.
\<close>

theorem no_ticks_before_same_origin_witness:
  "SameOriginResolves \<notin> set (replicate 5 (IntervalElapses login_page)) \<and>
   (let s = run example_externals (monitorPopupForHash example_externals login_page 6000)
              (replicate 5 (IntervalElapses login_page)) in
      ticks s = 0 \<and> result s = Pending \<and> \<not> interval_active s) \<and>
   (let s' = run example_externals (monitorPopupForHash example_externals login_page 6000)
              (replicate 5 (IntervalElapses login_page) @ [SameOriginResolves]) in
      ticks s' = 0 \<and> interval_active s' \<and> result s' = Pending)"
proof -
  have h: "SameOriginResolves \<notin> set (replicate 5 (IntervalElapses login_page))" by simp
  have g: "\<forall>err. SameOriginRejects err \<notin> set (replicate 5 (IntervalElapses login_page))"
    by simp
  show ?thesis
    using h g no_ticks_before_same_origin[OF h, of example_externals login_page 6000]
    by (simp only: Let_def) blast
qed

text \<open>
  The budget as the claim words it is not what the code stores: with a timeout of
  7000 ms and a poll interval of 2000 ms \<open>maxTicks\<close> holds 3.5, and the floor is 3.
\<close>

theorem floored_budget_counterexample:
  "maxTicks (monitorPopupForHash example_externals login_page 7000) = 7 / 2 \<and>
   maxTicks_spec example_externals 7000 = 3 \<and>
   maxTicks (monitorPopupForHash example_externals login_page 7000)
     \<noteq> maxTicks_spec example_externals 7000"
proof -
  have f: "\<lfloor>7000 / POLL_INTERVAL_MS example_externals\<rfloor> = 3"
    by (simp add: example_externals_def)
  have m: "maxTicks (monitorPopupForHash example_externals login_page 7000) = 7 / 2"
    by (simp add: monitorPopupForHash_def example_externals_def)
  have ms: "maxTicks_spec example_externals 7000 = 3"
    by (simp add: maxTicks_spec_def f)
  show ?thesis by (simp add: m ms)
qed

text \<open>
  Claim C2, amended. \<open>monitorPopupForHash\<close> stores the quotient
  \<open>timeoutMs / pollIntervalMs\<close> in \<open>maxTicks\<close>, not its floor. The tick count it is
  compared with is a whole number, so the session the code starts and the session that
  holds the floor of the quotient go through the same states on every list of events,
  ticks whose hash cannot be read included. On a popup window that on every tick is
  open with a hash that can be read and is not a recognized one, the result is the
  timeout error from the first tick on whose count exceeds the floor, and pending
  before (the poll interval being positive, as the constant of the library is).
\<close>

theorem unfloored_budget:
  "maxTicks (monitorPopupForHash e w0 timeout) = timeout / POLL_INTERVAL_MS e \<and>
   run e (monitor_spec e w0 timeout) evs =
     (run e (monitorPopupForHash e w0 timeout) evs)\<lparr>maxTicks := maxTicks_spec e timeout\<rparr> \<and>
   (0 < POLL_INTERVAL_MS e \<and> (\<forall>w\<in>set ws. unmarked e w) \<longrightarrow>
      (let s = run e (monitorPopupForHash e w0 timeout)
                 (SameOriginResolves # map IntervalElapses ws) in
       if ws \<noteq> [] \<and> \<lfloor>timeout / POLL_INTERVAL_MS e\<rfloor> < int (length ws)
       then result s = Rejected MonitorPopupTimeoutError \<and>
            \<lfloor>timeout / POLL_INTERVAL_MS e\<rfloor> < int (ticks s) \<and>
            (ticks s = 1 \<or> int (ticks s) - 1 \<le> \<lfloor>timeout / POLL_INTERVAL_MS e\<rfloor>)
       else result s = Pending \<and> ticks s = length ws))"
proof -
  define m where "m = timeout / POLL_INTERVAL_MS e"
  let ?init = "monitorPopupForHash e w0 timeout"
  have mt: "maxTicks ?init = m" by (simp add: init_fields m_def)
  have "run e (?init\<lparr>maxTicks := real_of_int \<lfloor>maxTicks ?init\<rfloor>\<rparr>) evs =
        (run e ?init evs)\<lparr>maxTicks := real_of_int \<lfloor>maxTicks ?init\<rfloor>\<rparr>"
    by (rule run_floor)
  then have first: "run e (monitor_spec e w0 timeout) evs =
     (run e ?init evs)\<lparr>maxTicks := maxTicks_spec e timeout\<rparr>"
    by (simp only: monitor_spec_def maxTicks_spec_def mt m_def)
  have second: "(let s = run e ?init (SameOriginResolves # map IntervalElapses ws) in
       if ws \<noteq> [] \<and> \<lfloor>m\<rfloor> < int (length ws)
       then result s = Rejected MonitorPopupTimeoutError \<and> \<lfloor>m\<rfloor> < int (ticks s) \<and>
            (ticks s = 1 \<or> int (ticks s) - 1 \<le> \<lfloor>m\<rfloor>)
       else result s = Pending \<and> ticks s = length ws)"
    if um: "\<forall>w\<in>set ws. unmarked e w" and "0 < POLL_INTERVAL_MS e"
  proof (cases "ws \<noteq> [] \<and> \<lfloor>m\<rfloor> < int (length ws)")
    case True
    then have over: "m < real (length ws)"
      by (simp add: floor_less_iff)
    have a: "\<lfloor>m\<rfloor> < int (timeout_tick m)"
      using timeout_tick_over[of m] by (simp add: floor_less_iff)
    have b: "timeout_tick m = 1 \<or> int (timeout_tick m) - 1 \<le> \<lfloor>m\<rfloor>"
      using timeout_tick_least[of m] timeout_tick_pos[of m] by (auto simp: le_floor_iff)
    show ?thesis
      using True a b polling_timeout[OF um, of timeout w0] over
      by (simp add: Let_def same_origin_resolves_fields del: step.simps run.simps flip: m_def)
  next
    case False
    then have "ws = [] \<or> real (length ws) \<le> m"
      by (auto simp: floor_less_iff not_less)
    then have "run e ?init (SameOriginResolves # map IntervalElapses ws) =
       (step e ?init SameOriginResolves)
         \<lparr>ticks := length ws, popupWindow := last (w0 # ws),
          calls := calls ?init @ SetInterval # poll_calls (length ws)\<rparr>"
      using um unfolding m_def by (intro polling_quiet) (auto intro: unmarked_quiet)
    moreover have "(if ws \<noteq> [] \<and> \<lfloor>m\<rfloor> < int (length ws) then P else Q) = Q" for P Q :: bool
      by (simp only: False if_False)
    ultimately show ?thesis
      by (simp add: Let_def same_origin_resolves_fields del: step.simps run.simps)
  qed
  have zeroth: "maxTicks ?init = timeout / POLL_INTERVAL_MS e" by (rule init_fields)
  show ?thesis using zeroth first second by (simp only: m_def) blast
qed

text \<open>
  A timeout of 7000 ms with a poll interval of 2000 ms: with the quotient 3.5 as with
  its floor 3, the fourth tick is the one that times out.
\<close>

theorem unfloored_budget_witness:
  "0 < POLL_INTERVAL_MS example_externals \<and> unmarked example_externals blank_page \<and>
   maxTicks (monitor_spec example_externals login_page 7000) = 3 \<and>
   result (run example_externals (monitorPopupForHash example_externals login_page 7000)
             (SameOriginResolves # map IntervalElapses (replicate 4 blank_page)))
     = Rejected MonitorPopupTimeoutError \<and>
   run example_externals (monitor_spec example_externals login_page 7000)
         (SameOriginResolves # map IntervalElapses (replicate 4 blank_page))
     = (run example_externals (monitorPopupForHash example_externals login_page 7000)
         (SameOriginResolves # map IntervalElapses (replicate 4 blank_page)))\<lparr>maxTicks := 3\<rparr>"
proof -
  have h: "\<forall>w\<in>set (replicate 4 blank_page). unmarked example_externals w"
    by (simp add: unmarked_def blank_page_def example_externals_def)
  have f: "\<lfloor>7000 / POLL_INTERVAL_MS example_externals\<rfloor> = 3"
    by (simp add: example_externals_def)
  have p: "0 < POLL_INTERVAL_MS example_externals"
    by (simp add: example_externals_def)
  have ms: "maxTicks_spec example_externals 7000 = 3"
    by (simp add: maxTicks_spec_def f)
  have "maxTicks (monitor_spec example_externals login_page 7000) = 3"
    by (simp add: monitor_spec_def ms)
  then show ?thesis
    using h p ms f unfloored_budget[of example_externals login_page 7000
        "SameOriginResolves # map IntervalElapses (replicate 4 blank_page)"
        "replicate 4 blank_page"]
    by (simp add: Let_def)
qed

text \<open>
  Claim C3. Every tick reads \<open>closed\<close> first. On a tick that finds the popup window
  closed and carrying a recognized hash, the promise is rejected with the
  user-cancelled error and is not resolved; the hash is not even read.
\<close>

theorem closed_check_first:
  assumes "interval_active (run e (monitorPopupForHash e w0 timeout) evs)"
    and "closed_win w" "location_hash w = Some h" "hashContainsKnownProperties e h"
  shows "let s = run e (monitorPopupForHash e w0 timeout) evs;
             s' = run e (monitorPopupForHash e w0 timeout) (evs @ [IntervalElapses w]) in
         result s' = Rejected UserCancelledError \<and> (\<forall>v. result s' \<noteq> Fulfilled v) \<and>
         calls s' = calls s @ [ReadClosed, CleanPopup None, ClearInterval,
                              Reject UserCancelledError] \<and>
         (\<forall>w'. \<exists>cs. calls (run e (monitorPopupForHash e w0 timeout)
                              (evs @ [IntervalElapses w'])) = calls s @ ReadClosed # cs)"
proof -
  define s where "s = run e (monitorPopupForHash e w0 timeout) evs"
  have live: "interval_active s" "result s = Pending"
    unfolding s_def using assms(1) by (simp_all add: live_pending)
  have "step e s (IntervalElapses w) =
           s\<lparr>popupWindow := w, interval_active := False,
             result := Rejected UserCancelledError,
             calls := calls s @ [ReadClosed, CleanPopup None, ClearInterval,
                                 Reject UserCancelledError]\<rparr>"
    using live assms(2) by (rule cancel_step)
  then have "result (step e s (IntervalElapses w)) = Rejected UserCancelledError \<and>
      calls (step e s (IntervalElapses w)) =
        calls s @ [ReadClosed, CleanPopup None, ClearInterval, Reject UserCancelledError]"
    by simp
  moreover have "\<exists>cs. calls (step e s (IntervalElapses w')) = calls s @ ReadClosed # cs" for w'
    using live(1) by (rule live_step_calls)
  ultimately show ?thesis
    by (simp only: Let_def run_snoc flip: s_def) simp
qed

theorem closed_check_first_witness:
  "interval_active (run example_externals (monitorPopupForHash example_externals login_page 6000)
                      [SameOriginResolves, IntervalElapses blank_page]) \<and>
   closed_win closed_code_page \<and> location_hash closed_code_page = Some ''#code=abc'' \<and>
   hashContainsKnownProperties example_externals ''#code=abc'' \<and>
   result (run example_externals (monitorPopupForHash example_externals login_page 6000)
             ([SameOriginResolves, IntervalElapses blank_page]
              @ [IntervalElapses closed_code_page]))
     = Rejected UserCancelledError"
proof -
  have h: "closed_win closed_code_page" "location_hash closed_code_page = Some ''#code=abc''"
    "hashContainsKnownProperties example_externals ''#code=abc''"
    by (simp_all add: closed_code_page_def example_externals_def)
  show ?thesis
    using example_live h closed_check_first[OF example_live h]
    by (simp only: Let_def)
qed

text \<open>
  Claim C4. In every session at most one call settles the promise, and it is the one
  the result shows. Once the result is settled the timer is cleared, the call before the
  settling one is \<open>clearInterval\<close>, and no further event changes the session.
\<close>

theorem one_terminal_transition:
  "let s = run e (monitorPopupForHash e w timeout) evs in
     filter is_settle (calls s) = settle_calls (result s) \<and>
     (result s \<noteq> Pending \<longrightarrow>
        \<not> interval_active s \<and> is_settle (last (calls s)) \<and>
        last (butlast (calls s)) = ClearInterval \<and> run e s evs' = s)"
proof -
  let ?s = "run e (monitorPopupForHash e w timeout) evs"
  have i: "session_inv ?s" by (rule inv_reachable)
  have "run e ?s evs' = ?s" if "result ?s \<noteq> Pending"
  proof (rule run_idle)
    show "\<not> interval_active ?s" using i that by (auto simp: session_inv_def)
    show "sameOrigin ?s \<noteq> Pending" using i that by (auto simp: session_inv_def)
  qed
  then show ?thesis using i by (auto simp: session_inv_def Let_def)
qed

theorem one_terminal_transition_witness:
  "result (run example_externals (monitorPopupForHash example_externals login_page 6000)
             [SameOriginResolves, IntervalElapses blank_page, IntervalElapses code_page])
     = Fulfilled ''#code=abc'' \<and>
   filter is_settle
     (calls (run example_externals (monitorPopupForHash example_externals login_page 6000)
               [SameOriginResolves, IntervalElapses blank_page, IntervalElapses code_page]))
     = [Resolve ''#code=abc''] \<and>
   run example_externals
     (run example_externals (monitorPopupForHash example_externals login_page 6000)
        [SameOriginResolves, IntervalElapses blank_page, IntervalElapses code_page])
     [IntervalElapses blank_page, IntervalElapses closed_page, SameOriginResolves]
   = run example_externals (monitorPopupForHash example_externals login_page 6000)
        [SameOriginResolves, IntervalElapses blank_page, IntervalElapses code_page]"
proof -
  have r: "result (run example_externals (monitorPopupForHash example_externals login_page 6000)
             [SameOriginResolves, IntervalElapses blank_page, IntervalElapses code_page])
     = Fulfilled ''#code=abc''"
    by (simp add: example_defs)
  show ?thesis
    using r one_terminal_transition[of example_externals login_page 6000
        "[SameOriginResolves, IntervalElapses blank_page, IntervalElapses code_page]"
        "[IntervalElapses blank_page, IntervalElapses closed_page, SameOriginResolves]"]
    by (simp add: Let_def del: run.simps)
qed

text \<open>
  Claim C5 has the promise rejected with the timeout error exactly when the tick count
  exceeds \<open>maxTicks\<close>, on every popup window that stays open and never shows a
  recognized hash. The code does otherwise on a window whose hash cannot be read once
  the promise of \<open>monitorPopupForSameOrigin\<close> is fulfilled: \<open>ticks\<close> is incremented
  before the read, against the comment ``Only run clock when we are on same domain'',
  and the read throws before the budget is looked at. With a timeout of 6000 ms and a
  poll interval of 2000 ms, after six ticks on an open login page \<open>ticks\<close> is 6 against
  a budget of 3, the promise is pending, the timer is registered and \<open>cleanPopup\<close> has
  not been called; the first tick that can then read a hash, a seventh, times out at
  once.
\<close>

theorem unreadable_popup_not_timed_out:
  "(let s = run example_externals (monitorPopupForHash example_externals login_page 6000)
              [SameOriginResolves,
               IntervalElapses login_page, IntervalElapses login_page,
               IntervalElapses login_page, IntervalElapses login_page,
               IntervalElapses login_page, IntervalElapses login_page] in
      maxTicks s = 3 \<and> ticks s = 6 \<and> result s = Pending \<and> interval_active s \<and>
      \<not> closed_win (popupWindow s) \<and>
      calls s = [LoggerWarning, MonitorPopupForSameOrigin, SetInterval] @ poll_calls 6) \<and>
   (let s = run example_externals (monitorPopupForHash example_externals login_page 6000)
              [SameOriginResolves,
               IntervalElapses login_page, IntervalElapses login_page,
               IntervalElapses login_page, IntervalElapses login_page,
               IntervalElapses login_page, IntervalElapses login_page,
               IntervalElapses blank_page] in
      ticks s = 7 \<and> result s = Rejected MonitorPopupTimeoutError)"
  by (simp add: example_defs poll_calls_def eval_nat_numeral)

text \<open>
  Claim C6. When the popup window, still open, shows a recognized hash on a tick within
  the tick budget, after ticks on which it was open and showed none, the promise is
  resolved with the hash read on that tick; \<open>cleanPopup\<close> is called with the window,
  which ends up closed, and the timer is cleared, so whatever events follow change
  nothing. With a timeout of 6000 ms, a poll interval of 2000 ms and the hash on the
  second tick, the promise is resolved with \<open>ticks\<close> at 2 and the later poll intervals
  run no callback.
\<close>

theorem success_within_budget:
  assumes "\<forall>w\<in>set ws. quiet e w"
    and "real (length ws + 1) \<le> timeout / POLL_INTERVAL_MS e"
    and "\<not> closed_win w" "location_hash w = Some h" "hashContainsKnownProperties e h"
    and "0 < POLL_INTERVAL_MS e"
  shows "let s0 = monitorPopupForHash e w0 timeout;
             s = run e s0 (SameOriginResolves # map IntervalElapses (ws @ [w]) @ post) in
         result s = Fulfilled h \<and> ticks s = length ws + 1 \<and>
         closed_win (popupWindow s) \<and> \<not> interval_active s \<and>
         calls s = calls s0 @ SetInterval # poll_calls (length ws + 1) @
           [CleanPopup (Some PopupWindowRef), WindowClose, ClearInterval, Resolve h]"
proof -
  let ?init = "monitorPopupForHash e w0 timeout"
  define a where "a = step e ?init SameOriginResolves"
  define s1 where "s1 = run e ?init (SameOriginResolves # map IntervalElapses ws)"
  define s2 where "s2 = step e s1 (IntervalElapses w)"
  have budget: "ws = [] \<or> real (length ws) \<le> timeout / POLL_INTERVAL_MS e"
    using assms(2) by simp
  have s1: "s1 = a\<lparr>ticks := length ws, popupWindow := last (w0 # ws),
                   calls := calls ?init @ SetInterval # poll_calls (length ws)\<rparr>"
    unfolding s1_def a_def by (rule polling_quiet[OF assms(1) budget])
  have fa: "interval_active a" "result a = Pending" "sameOrigin a \<noteq> Pending"
    unfolding a_def by (rule same_origin_resolves_fields)+
  have f1: "interval_active s1" "result s1 = Pending" "sameOrigin s1 \<noteq> Pending"
    "ticks s1 = length ws"
    "calls s1 = calls ?init @ SetInterval # poll_calls (length ws)"
    using fa by (simp_all add: s1)
  have s2: "s2 = s1\<lparr>ticks := Suc (ticks s1), popupWindow := w\<lparr>closed_win := True\<rparr>,
             interval_active := False, result := Fulfilled h,
             calls := calls s1 @ [ReadClosed, ReadLocationHash, CleanPopup (Some PopupWindowRef),
                                 WindowClose, ClearInterval, Resolve h]\<rparr>"
    unfolding s2_def using f1(1,2) assms(3-5) by (rule success_step)
  have f2: "result s2 = Fulfilled h" "ticks s2 = length ws + 1"
    "closed_win (popupWindow s2)" "\<not> interval_active s2" "sameOrigin s2 \<noteq> Pending"
    "calls s2 = calls ?init @ SetInterval # poll_calls (length ws + 1) @
           [CleanPopup (Some PopupWindowRef), WindowClose, ClearInterval, Resolve h]"
    using f1 poll_calls_Suc[of "length ws"] by (simp_all add: s2)
  have "run e ?init (SameOriginResolves # map IntervalElapses (ws @ [w]) @ post) =
        run e ?init ((SameOriginResolves # map IntervalElapses ws) @ IntervalElapses w # post)"
    by simp
  also have "\<dots> = run e s2 post"
    by (simp only: run_append run.simps s1_def s2_def)
  also have "\<dots> = s2" using f2(4,5) by (rule run_idle)
  finally show ?thesis using f2 by (simp only: Let_def) simp
qed

theorem success_within_budget_witness:
  "0 < POLL_INTERVAL_MS example_externals \<and> quiet example_externals blank_page \<and>
   real (length [blank_page] + 1) \<le> 6000 / POLL_INTERVAL_MS example_externals \<and>
   \<not> closed_win code_page \<and> location_hash code_page = Some ''#code=abc'' \<and>
   hashContainsKnownProperties example_externals ''#code=abc'' \<and>
   (let s = run example_externals (monitorPopupForHash example_externals login_page 6000)
              (SameOriginResolves # map IntervalElapses ([blank_page] @ [code_page])
                 @ [IntervalElapses blank_page, IntervalElapses blank_page]) in
      result s = Fulfilled ''#code=abc'' \<and> ticks s = 2 \<and> closed_win (popupWindow s) \<and>
      \<not> interval_active s)"
proof -
  have h: "\<forall>w\<in>set [blank_page]. quiet example_externals w"
    "real (length [blank_page] + 1) \<le> 6000 / POLL_INTERVAL_MS example_externals"
    "\<not> closed_win code_page" "location_hash code_page = Some ''#code=abc''"
    "hashContainsKnownProperties example_externals ''#code=abc''"
    "0 < POLL_INTERVAL_MS example_externals"
    by (simp_all add: quiet_def blank_page_def code_page_def example_externals_def)
  show ?thesis
    using h success_within_budget[OF h, of login_page
        "[IntervalElapses blank_page, IntervalElapses blank_page]"]
    by (simp add: Let_def del: run.simps)
qed



text \<open>
  The claim has every blank URL rejected. A URL of three spaces is not: the interaction
  flag is set, a surface is opened for it and its handle is returned.
\<close>

theorem blank_url_counterexample:
  "fst (initiateAuthRequest example_externals ''   '' example_params example_handler) = Inr 0 \<and>
   browserStorage
     (snd (initiateAuthRequest example_externals ''   '' example_params example_handler))
     ''interaction.status'' = Some ''interaction_in_progress'' \<and>
   surfaces
     (snd (initiateAuthRequest example_externals ''   '' example_params example_handler)) 0
     = Some (''   '', ''msal'')"
  by (simp add: initiateAuthRequest_def isEmpty_def openPopup_def setTemporaryCache_def
      logger_def example_externals_def example_params_def example_handler_def)

text \<open>
  Claim C8, amended. For the empty request URL \<open>initiateAuthRequest\<close> throws the
  empty-navigation-URI error and changes nothing but the log of calls, where the call
  to \<open>logger.error\<close> is added: the temporary cache and the surfaces are as they were,
  so the interaction flag is not set and no surface is opened. For every other
  request URL, one of spaces included, it stores the in-progress value under the
  interaction status key, then logs, then opens the surface (the existing one if one
  is supplied), navigated to the URL under the popup name, and returns its handle.
\<close>

theorem initiateAuthRequest_cases:
  "(requestUrl = [] \<longrightarrow>
      initiateAuthRequest e requestUrl params st =
        (Inl EmptyNavigationUriError,
         st\<lparr>launch_calls := launch_calls st @ [LoggerError ''Navigate url is empty'']\<rparr>)) \<and>
   (requestUrl \<noteq> [] \<longrightarrow>
      (let r = initiateAuthRequest e requestUrl params st;
           opened = (case popup params of Some w \<Rightarrow> w | None \<Rightarrow> next_surface st) in
       fst r = Inr opened \<and>
       surfaces (snd r) opened = Some (requestUrl, popupName params) \<and>
       browserStorage (snd r) =
         (browserStorage st)(INTERACTION_STATUS_KEY e \<mapsto> INTERACTION_IN_PROGRESS_VALUE e) \<and>
       launch_calls (snd r) = launch_calls st @
         [SetTemporaryCache (INTERACTION_STATUS_KEY e) (INTERACTION_IN_PROGRESS_VALUE e) True,
          LoggerInfoPii (''Navigate to:'' @ requestUrl),
          OpenPopup requestUrl (popupName params) (popup params)]))"
proof (cases "requestUrl = []")
  case True
  then show ?thesis
    by (simp add: initiateAuthRequest_def isEmpty_def logger_def)
next
  case False
  then show ?thesis
    by (cases "popup params")
       (simp_all add: initiateAuthRequest_def isEmpty_def openPopup_def setTemporaryCache_def
          logger_def Let_def)
qed

theorem initiateAuthRequest_cases_witness:
  "initiateAuthRequest example_externals [] example_params example_handler =
     (Inl EmptyNavigationUriError,
      example_handler\<lparr>launch_calls := [LoggerError ''Navigate url is empty'']\<rparr>) \<and>
   ''https://login.example/authorize'' \<noteq> [] \<and>
   fst (initiateAuthRequest example_externals ''https://login.example/authorize''
          example_params example_handler) = Inr 0 \<and>
   surfaces (snd (initiateAuthRequest example_externals ''https://login.example/authorize''
          example_params example_handler)) 0
     = Some (''https://login.example/authorize'', ''msal'') \<and>
   browserStorage (snd (initiateAuthRequest example_externals ''https://login.example/authorize''
          example_params example_handler)) ''interaction.status''
     = Some ''interaction_in_progress''"
proof -
  have k: "INTERACTION_STATUS_KEY example_externals = ''interaction.status''"
    "INTERACTION_IN_PROGRESS_VALUE example_externals = ''interaction_in_progress''"
    by (simp_all add: example_externals_def)
  have p: "popup example_params = None" "popupName example_params = ''msal''"
    "next_surface example_handler = 0" "launch_calls example_handler = []"
    by (simp_all add: example_params_def example_handler_def)
  show ?thesis
    using initiateAuthRequest_cases[of "[]" example_externals example_params example_handler]
          initiateAuthRequest_cases[of "''https://login.example/authorize''" example_externals
            example_params example_handler]
    by (simp add: Let_def k p)
qed

text \<open>
  Claim C9. A tick that finds the popup window closed leaves \<open>ticks\<close> as it was and
  does not read \<open>location.hash\<close>. A tick that finds it open increments \<open>ticks\<close> and then
  reads the hash, also when that tick resolves the promise.
\<close>

theorem closed_tick_not_counted:
  assumes "interval_active (run e (monitorPopupForHash e w0 timeout) evs)"
  shows "let s = run e (monitorPopupForHash e w0 timeout) evs;
             s' = run e (monitorPopupForHash e w0 timeout) (evs @ [IntervalElapses w]) in
         (closed_win w \<longrightarrow>
            ticks s' = ticks s \<and>
            ReadLocationHash \<notin> set (drop (length (calls s)) (calls s'))) \<and>
         (\<not> closed_win w \<longrightarrow>
            ticks s' = ticks s + 1 \<and>
            take 2 (drop (length (calls s)) (calls s')) = [ReadClosed, ReadLocationHash]) \<and>
         (\<not> closed_win w \<and> location_hash w = Some h \<and> hashContainsKnownProperties e h \<longrightarrow>
            result s' = Fulfilled h \<and> ticks s' = ticks s + 1)"
proof -
  define s where "s = run e (monitorPopupForHash e w0 timeout) evs"
  have live: "interval_active s" "result s = Pending"
    unfolding s_def using assms(1) by (simp_all add: live_pending)
  have c: "ticks (step e s (IntervalElapses w)) = ticks s \<and>
           ReadLocationHash \<notin> set (drop (length (calls s)) (calls (step e s (IntervalElapses w))))"
    if "closed_win w"
    using cancel_step[OF live that, of e] by simp
  have o: "ticks (step e s (IntervalElapses w)) = ticks s + 1 \<and>
           take 2 (drop (length (calls s)) (calls (step e s (IntervalElapses w))))
             = [ReadClosed, ReadLocationHash]"
    if "\<not> closed_win w"
    using live(1) that by (auto simp: callback_defs split: option.splits)
  have r: "result (step e s (IntervalElapses w)) = Fulfilled h"
    if "\<not> closed_win w" "location_hash w = Some h" "hashContainsKnownProperties e h"
    using success_step[OF live that] by simp
  show ?thesis
    using c o r by (simp only: Let_def run_snoc flip: s_def) blast
qed

theorem closed_tick_not_counted_witness:
  "interval_active (run example_externals (monitorPopupForHash example_externals login_page 6000)
                      [SameOriginResolves, IntervalElapses blank_page]) \<and>
   closed_win closed_page \<and>
   ticks (run example_externals (monitorPopupForHash example_externals login_page 6000)
            ([SameOriginResolves, IntervalElapses blank_page] @ [IntervalElapses closed_page])) =
   ticks (run example_externals (monitorPopupForHash example_externals login_page 6000)
            [SameOriginResolves, IntervalElapses blank_page]) \<and>
   \<not> closed_win code_page \<and> location_hash code_page = Some ''#code=abc'' \<and>
   hashContainsKnownProperties example_externals ''#code=abc'' \<and>
   ticks (run example_externals (monitorPopupForHash example_externals login_page 6000)
            ([SameOriginResolves, IntervalElapses blank_page] @ [IntervalElapses code_page])) =
   ticks (run example_externals (monitorPopupForHash example_externals login_page 6000)
            [SameOriginResolves, IntervalElapses blank_page]) + 1 \<and>
   result (run example_externals (monitorPopupForHash example_externals login_page 6000)
            ([SameOriginResolves, IntervalElapses blank_page] @ [IntervalElapses code_page]))
     = Fulfilled ''#code=abc''"
proof -
  have h: "closed_win closed_page" "\<not> closed_win code_page"
    "location_hash code_page = Some ''#code=abc''"
    "hashContainsKnownProperties example_externals ''#code=abc''"
    by (simp_all add: closed_page_def code_page_def example_externals_def)
  show ?thesis
    using example_live h
      closed_tick_not_counted[OF example_live, of closed_page "''#code=abc''"]
      closed_tick_not_counted[OF example_live, of code_page "''#code=abc''"]
    by (simp only: Let_def) blast
qed

text \<open>
  Claim C10. When the promise of \<open>monitorPopupForSameOrigin\<close> is rejected, the promise
  handed to the caller stays pending whatever happens afterwards: no timer is
  registered, no tick is counted, and the session makes no call beyond those of the
  executor, in particular none to \<open>cleanPopup\<close>.
\<close>

theorem rejected_same_origin_never_settles:
  assumes "SameOriginResolves \<notin> set pre"
  shows "let s0 = monitorPopupForHash e w timeout;
             s = run e s0 (pre @ SameOriginRejects err # post) in
           result s = Pending \<and> \<not> interval_active s \<and> ticks s = 0 \<and>
           calls s = calls s0 \<and> (\<forall>h. CleanPopup h \<notin> set (calls s))"
proof -
  let ?init = "monitorPopupForHash e w timeout"
  define s1 where "s1 = run e ?init pre"
  define s2 where "s2 = step e s1 (SameOriginRejects err)"
  have f1: "ticks s1 = 0 \<and> result s1 = Pending \<and> \<not> interval_active s1 \<and>
            calls s1 = calls ?init"
    unfolding s1_def
    using run_before_same_origin_fields[OF init_fields(4) assms, of e e w timeout]
    by (simp add: init_fields)
  have f2: "ticks s2 = 0 \<and> result s2 = Pending \<and> \<not> interval_active s2 \<and>
            calls s2 = calls ?init \<and> sameOrigin s2 \<noteq> Pending"
    unfolding s2_def using f1 by simp
  have "run e ?init (pre @ SameOriginRejects err # post) = run e s2 post"
    by (simp add: run_append s1_def s2_def)
  also have "\<dots> = s2" using f2 by (intro run_idle) simp_all
  finally show ?thesis using f2 by (simp add: Let_def init_no_cleanup)
qed

theorem rejected_same_origin_never_settles_witness:
  "SameOriginResolves \<notin> set [IntervalElapses login_page, IntervalElapses login_page] \<and>
   (let s = run example_externals (monitorPopupForHash example_externals login_page 6000)
              ([IntervalElapses login_page, IntervalElapses login_page]
               @ SameOriginRejects UserCancelledError
               # [IntervalElapses closed_page, SameOriginResolves, IntervalElapses code_page]) in
      result s = Pending \<and> \<not> interval_active s \<and> ticks s = 0 \<and>
      (\<forall>h. CleanPopup h \<notin> set (calls s)))"
proof -
  have h: "SameOriginResolves \<notin> set [IntervalElapses login_page, IntervalElapses login_page]"
    by simp
  show ?thesis
    using h rejected_same_origin_never_settles[OF h, of example_externals login_page 6000
        UserCancelledError
        "[IntervalElapses closed_page, SameOriginResolves, IntervalElapses code_page]"]
    by (simp add: Let_def init_no_cleanup del: run.simps)
qed

end
